theory Spec2Isabelle
  imports Main
begin

section \<open>The CSS selector builder of \<open>05-objects-tasks.js\<close>\<close>

text \<open>
  The source keeps every selector part as an object \<open>{ type, value }\<close> whose \<open>type\<close> is
  one of the string tags \<open>'element'\<close>, \<open>'id'\<close>, \<open>'class'\<close>, \<open>'attr'\<close>, \<open>'pseudo-class'\<close>,
  \<open>'pseudo-element'\<close>. The tags stay strings here, so that \<open>indexOf\<close> and the \<open>switch\<close> of
  \<open>stringify\<close> keep their branch for a tag they do not know. A \<open>value\<close> is a text.
\<close>

subsection \<open>Data\<close>

record fragment =
  ftype :: string
  fvalue :: string

text \<open>\<open>class Selector\<close>: its only field is the array \<open>this.selector\<close>.\<close>

record Selector =
  selector :: "fragment list"

text \<open>
  Selector objects are mutated in place and shared by reference (every append method
  returns \<open>this\<close>, and \<open>combine\<close> stores the two objects it is given). They live in a
  store; a reference is an index into it, and \<open>new Selector(...)\<close> allocates at the end.
  A reference that a program holds always denotes an object, so the facts about a
  reference \<open>r\<close> into a store \<open>st\<close> assume \<open>r < length st\<close>.
\<close>

type_synonym ref = nat
type_synonym store = "Selector list"

text \<open>
  The source throws \<open>new Error(message)\<close> with one of two messages. Reading \<open>.type\<close> of
  \<open>undefined\<close> raises the platform's \<open>TypeError\<close>; \<open>JSON.parse\<close> raises the platform's
  \<open>SyntaxError\<close> on a text that is not JSON.
\<close>

datatype error = Error string | TypeError | SyntaxError

definition duplicate_message :: string where
  "duplicate_message =
     ''Element, id and pseudo-element should not occur more then one time inside the selector''"

definition order_message :: string where
  "order_message =
     ''Selector parts should be arranged in the following order: element, id, class, attribute, pseudo-class, pseudo-element''"

text \<open>The names the specification gives to the two errors.\<close>

abbreviation DuplicateSelectorPartError :: error where
  "DuplicateSelectorPartError \<equiv> Error duplicate_message"

abbreviation SelectorOrderError :: error where
  "SelectorOrderError \<equiv> Error order_message"

subsection \<open>\<open>Selector.validate\<close>\<close>

text \<open>\<open>Array.prototype.indexOf\<close>: the first position of the element, \<open>-1\<close> when absent.\<close>

fun indexOf :: "string list \<Rightarrow> string \<Rightarrow> int" where
  "indexOf [] x = - 1"
| "indexOf (y # ys) x =
     (if y = x then 0
      else (let i = indexOf ys x in if i < 0 then - 1 else i + 1))"

definition correctOrder :: "string list" where
  "correctOrder = [''element'', ''id'', ''class'', ''attr'', ''pseudo-class'', ''pseudo-element'']"

text \<open>
  \<open>validate(type)\<close> only reads the object. \<open>find\<close> returns the matching part (an object,
  hence truthy) or \<open>undefined\<close>. \<open>this.selector[this.selector.length - 1]\<close> is
  \<open>undefined\<close> on an empty array, and reading its \<open>type\<close> raises \<open>TypeError\<close>.
\<close>

definition validate :: "string \<Rightarrow> ref \<Rightarrow> store \<Rightarrow> error + unit" where
  "validate type this st =
     (let sel = selector (st ! this) in
      if (type = ''element'' \<or> type = ''id'' \<or> type = ''pseudo-element'')
         \<and> List.find (\<lambda>el. ftype el = type) sel \<noteq> None
      then Inl (Error duplicate_message)
      else if sel = [] then Inl TypeError
      else
        (let index = indexOf correctOrder (ftype (last sel)) in
         if indexOf correctOrder type < index then Inl (Error order_message)
         else Inr ()))"

subsection \<open>The append methods of \<open>Selector\<close>\<close>

text \<open>\<open>this.selector.push(el)\<close>.\<close>

definition push :: "fragment \<Rightarrow> ref \<Rightarrow> store \<Rightarrow> store" where
  "push el this st = st[this := (st ! this)\<lparr>selector := selector (st ! this) @ [el]\<rparr>]"

text \<open>
  Each method validates, pushes and returns \<open>this\<close>. An exception of \<open>validate\<close> leaves
  the method before the push; the result pairs the outcome with the store after the call.
\<close>

definition Selector_element :: "string \<Rightarrow> ref \<Rightarrow> store \<Rightarrow> (error + ref) \<times> store" where
  "Selector_element value this st =
     (case validate ''element'' this st of
        Inl e \<Rightarrow> (Inl e, st)
      | Inr _ \<Rightarrow> (Inr this, push \<lparr>ftype = ''element'', fvalue = value\<rparr> this st))"

definition Selector_id :: "string \<Rightarrow> ref \<Rightarrow> store \<Rightarrow> (error + ref) \<times> store" where
  "Selector_id value this st =
     (case validate ''id'' this st of
        Inl e \<Rightarrow> (Inl e, st)
      | Inr _ \<Rightarrow> (Inr this, push \<lparr>ftype = ''id'', fvalue = value\<rparr> this st))"

definition Selector_class :: "string \<Rightarrow> ref \<Rightarrow> store \<Rightarrow> (error + ref) \<times> store" where
  "Selector_class value this st =
     (case validate ''class'' this st of
        Inl e \<Rightarrow> (Inl e, st)
      | Inr _ \<Rightarrow> (Inr this, push \<lparr>ftype = ''class'', fvalue = value\<rparr> this st))"

definition Selector_attr :: "string \<Rightarrow> ref \<Rightarrow> store \<Rightarrow> (error + ref) \<times> store" where
  "Selector_attr value this st =
     (case validate ''attr'' this st of
        Inl e \<Rightarrow> (Inl e, st)
      | Inr _ \<Rightarrow> (Inr this, push \<lparr>ftype = ''attr'', fvalue = value\<rparr> this st))"

definition Selector_pseudoClass :: "string \<Rightarrow> ref \<Rightarrow> store \<Rightarrow> (error + ref) \<times> store" where
  "Selector_pseudoClass value this st =
     (case validate ''pseudo-class'' this st of
        Inl e \<Rightarrow> (Inl e, st)
      | Inr _ \<Rightarrow> (Inr this, push \<lparr>ftype = ''pseudo-class'', fvalue = value\<rparr> this st))"

definition Selector_pseudoElement :: "string \<Rightarrow> ref \<Rightarrow> store \<Rightarrow> (error + ref) \<times> store" where
  "Selector_pseudoElement value this st =
     (case validate ''pseudo-element'' this st of
        Inl e \<Rightarrow> (Inl e, st)
      | Inr _ \<Rightarrow> (Inr this, push \<lparr>ftype = ''pseudo-element'', fvalue = value\<rparr> this st))"

subsection \<open>\<open>Selector.stringify\<close>\<close>

text \<open>The callback of \<open>reduce\<close>: a \<open>switch\<close> on \<open>el.type\<close> whose default returns \<open>acc\<close>.\<close>

definition reducer :: "string \<Rightarrow> fragment \<Rightarrow> string" where
  "reducer acc el =
     (if ftype el = ''element'' then acc @ fvalue el
      else if ftype el = ''id'' then acc @ ''#'' @ fvalue el
      else if ftype el = ''class'' then acc @ ''.'' @ fvalue el
      else if ftype el = ''attr'' then acc @ ''['' @ fvalue el @ '']''
      else if ftype el = ''pseudo-class'' then acc @ '':'' @ fvalue el
      else if ftype el = ''pseudo-element'' then acc @ ''::'' @ fvalue el
      else acc)"

definition Selector_stringify :: "ref \<Rightarrow> store \<Rightarrow> string" where
  "Selector_stringify this st = foldl reducer [] (selector (st ! this))"

subsection \<open>The facade \<open>cssSelectorBuilder\<close>\<close>

text \<open>\<open>new Selector(part)\<close>: a fresh object whose array holds the one part.\<close>

definition new_Selector :: "fragment \<Rightarrow> store \<Rightarrow> ref \<times> store" where
  "new_Selector part st = (length st, st @ [\<lparr>selector = [part]\<rparr>])"

definition builder_element :: "string \<Rightarrow> store \<Rightarrow> ref \<times> store" where
  "builder_element value st = new_Selector \<lparr>ftype = ''element'', fvalue = value\<rparr> st"

definition builder_id :: "string \<Rightarrow> store \<Rightarrow> ref \<times> store" where
  "builder_id value st = new_Selector \<lparr>ftype = ''id'', fvalue = value\<rparr> st"

definition builder_class :: "string \<Rightarrow> store \<Rightarrow> ref \<times> store" where
  "builder_class value st = new_Selector \<lparr>ftype = ''class'', fvalue = value\<rparr> st"

definition builder_attr :: "string \<Rightarrow> store \<Rightarrow> ref \<times> store" where
  "builder_attr value st = new_Selector \<lparr>ftype = ''attr'', fvalue = value\<rparr> st"

definition builder_pseudoClass :: "string \<Rightarrow> store \<Rightarrow> ref \<times> store" where
  "builder_pseudoClass value st = new_Selector \<lparr>ftype = ''pseudo-class'', fvalue = value\<rparr> st"

definition builder_pseudoElement :: "string \<Rightarrow> store \<Rightarrow> ref \<times> store" where
  "builder_pseudoElement value st = new_Selector \<lparr>ftype = ''pseudo-element'', fvalue = value\<rparr> st"

text \<open>
  \<open>combine\<close> returns an object \<open>{ sel1, sel2, combinator, stringify }\<close>. No code of the
  repository assigns to one of its fields afterwards, so the object is an immutable value;
  what it shares with its creator are the Selector objects it refers to, which stay
  references into the store. A selector-like value is therefore a tree whose leaves are
  references to Selectors.
\<close>

datatype node = Sel ref | Combined node node string

definition builder_combine :: "node \<Rightarrow> string \<Rightarrow> node \<Rightarrow> node" where
  "builder_combine sel1 combinator sel2 = Combined sel1 sel2 combinator"

text \<open>
  \<open>stringify()\<close> of a selector-like value: the method of \<open>Selector\<close> at a leaf, the
  template literal of the combined object otherwise, evaluated in the store of the call.
\<close>

fun stringify :: "node \<Rightarrow> store \<Rightarrow> string" where
  "stringify (Sel this) st = Selector_stringify this st"
| "stringify (Combined sel1 sel2 combinator) st =
     stringify sel1 st @ '' '' @ combinator @ '' '' @ stringify sel2 st"

subsection \<open>Calls and chains\<close>

text \<open>
  The facade and the class offer the same six one-argument operations. A \<open>call\<close> names
  one of them with its argument; \<open>builder_call\<close> invokes it on the facade,
  \<open>Selector_call\<close> on a Selector object.
\<close>

datatype call =
  Element string | Id string | Class string | Attr string
  | PseudoClass string | PseudoElement string

fun call_type :: "call \<Rightarrow> string" where
  "call_type (Element v) = ''element''"
| "call_type (Id v) = ''id''"
| "call_type (Class v) = ''class''"
| "call_type (Attr v) = ''attr''"
| "call_type (PseudoClass v) = ''pseudo-class''"
| "call_type (PseudoElement v) = ''pseudo-element''"

fun call_value :: "call \<Rightarrow> string" where
  "call_value (Element v) = v"
| "call_value (Id v) = v"
| "call_value (Class v) = v"
| "call_value (Attr v) = v"
| "call_value (PseudoClass v) = v"
| "call_value (PseudoElement v) = v"

fun builder_call :: "call \<Rightarrow> store \<Rightarrow> ref \<times> store" where
  "builder_call (Element v) st = builder_element v st"
| "builder_call (Id v) st = builder_id v st"
| "builder_call (Class v) st = builder_class v st"
| "builder_call (Attr v) st = builder_attr v st"
| "builder_call (PseudoClass v) st = builder_pseudoClass v st"
| "builder_call (PseudoElement v) st = builder_pseudoElement v st"

fun Selector_call :: "call \<Rightarrow> ref \<Rightarrow> store \<Rightarrow> (error + ref) \<times> store" where
  "Selector_call (Element v) this st = Selector_element v this st"
| "Selector_call (Id v) this st = Selector_id v this st"
| "Selector_call (Class v) this st = Selector_class v this st"
| "Selector_call (Attr v) this st = Selector_attr v this st"
| "Selector_call (PseudoClass v) this st = Selector_pseudoClass v this st"
| "Selector_call (PseudoElement v) this st = Selector_pseudoElement v this st"

text \<open>
  A chained expression \<open>s.a(x).b(y)...\<close>: each call is made on the object the previous
  one returned, and the first exception ends the chain.
\<close>

fun chain :: "call list \<Rightarrow> ref \<Rightarrow> store \<Rightarrow> (error + ref) \<times> store" where
  "chain [] this st = (Inr this, st)"
| "chain (c # cs) this st =
     (case Selector_call c this st of
        (Inl e, st') \<Rightarrow> (Inl e, st')
      | (Inr r, st') \<Rightarrow> chain cs r st')"

text \<open>
  The stores a program can reach through the facade: it starts with no Selector, creates
  one with a facade entry point, or calls an append method on one it holds (the call may
  raise). \<open>combine\<close> allocates no Selector and mutates none.
\<close>

inductive reachable :: "store \<Rightarrow> bool" where
  initial: "reachable []"
| entry: "reachable st \<Longrightarrow> builder_call c st = (r, st') \<Longrightarrow> reachable st'"
| append: "reachable st \<Longrightarrow> this < length st \<Longrightarrow> Selector_call c this st = (res, st')
     \<Longrightarrow> reachable st'"

text \<open>
  The object literal \<open>cssSelectorBuilder\<close> as the table of its properties, in the order
  of the source. Looking up a name that is not a property gives \<open>undefined\<close>.
\<close>

datatype member =
  Entry "string \<Rightarrow> store \<Rightarrow> ref \<times> store"
  | Combinator "node \<Rightarrow> string \<Rightarrow> node \<Rightarrow> node"

definition cssSelectorBuilder :: "(string \<times> member) list" where
  "cssSelectorBuilder =
     [(''element'', Entry builder_element),
      (''id'', Entry builder_id),
      (''class'', Entry builder_class),
      (''attr'', Entry builder_attr),
      (''pseudoClass'', Entry builder_pseudoClass),
      (''pseudoElement'', Entry builder_pseudoElement),
      (''combine'', Combinator builder_combine)]"

subsection \<open>\<open>fromJSON\<close>\<close>

text \<open>
  \<open>JSON.parse\<close>, \<open>Object.getOwnPropertyDescriptors\<close> and \<open>Object.create\<close> belong to the
  platform and are parameters. The function has no \<open>try\<close>: an exception of the first
  statement ends it.
\<close>

definition fromJSON ::
  "(string \<Rightarrow> error + 'j) \<Rightarrow> ('j \<Rightarrow> error + 'd) \<Rightarrow> ('p \<Rightarrow> 'd \<Rightarrow> error + 'o)
     \<Rightarrow> 'p \<Rightarrow> string \<Rightarrow> error + 'o" where
  "fromJSON JSON_parse getOwnPropertyDescriptors Object_create proto json =
     (case JSON_parse json of
        Inl e \<Rightarrow> Inl e
      | Inr obj \<Rightarrow>
          (case getOwnPropertyDescriptors obj of
             Inl e \<Rightarrow> Inl e
           | Inr descriptors \<Rightarrow> Object_create proto descriptors))"

subsection \<open>The notions of the specification\<close>

text \<open>The rank of a kind is its position in \<open>correctOrder\<close>, as \<open>validate\<close> computes it.\<close>

definition rank :: "string \<Rightarrow> int" where
  "rank type = indexOf correctOrder type"

definition count_type :: "string \<Rightarrow> fragment list \<Rightarrow> nat" where
  "count_type type sel = length (filter (\<lambda>el. ftype el = type) sel)"

text \<open>
  The Selector invariants: at most one part each of kind element, id and pseudo-element,
  and ranks in non-decreasing order.
\<close>

definition Selector_invariants :: "fragment list \<Rightarrow> bool" where
  "Selector_invariants sel \<longleftrightarrow>
     count_type ''element'' sel \<le> 1 \<and> count_type ''id'' sel \<le> 1
     \<and> count_type ''pseudo-element'' sel \<le> 1
     \<and> sorted (map (\<lambda>el. rank (ftype el)) sel)"

text \<open>The punctuated text of a part, by kind, as the specification lists it.\<close>

fun punctuated :: "call \<Rightarrow> string" where
  "punctuated (Element text) = text"
| "punctuated (Id text) = ''#'' @ text"
| "punctuated (Class text) = ''.'' @ text"
| "punctuated (Attr text) = ''['' @ text @ '']''"
| "punctuated (PseudoClass text) = '':'' @ text"
| "punctuated (PseudoElement text) = ''::'' @ text"

text \<open>
  The uniqueness check of \<open>validate\<close> as a predicate: the kind is one of the three that
  may occur once, and a part of that kind is already stored.
\<close>

definition duplicate :: "string \<Rightarrow> fragment list \<Rightarrow> bool" where
  "duplicate type sel \<longleftrightarrow>
     (type = ''element'' \<or> type = ''id'' \<or> type = ''pseudo-element'')
     \<and> (\<exists>el \<in> set sel. ftype el = type)"

text \<open>
  What holds of every Selector of a reachable store: it is not empty, its tags are the six
  of \<open>correctOrder\<close>, and it satisfies the invariants.
\<close>

definition well_formed :: "fragment list \<Rightarrow> bool" where
  "well_formed sel \<longleftrightarrow>
     sel \<noteq> [] \<and> list_all (\<lambda>el. ftype el \<in> set correctOrder) sel \<and> Selector_invariants sel"

definition well_formed_store :: "store \<Rightarrow> bool" where
  "well_formed_store st \<longleftrightarrow> list_all (\<lambda>s. well_formed (selector s)) st"

text \<open>
  A facade entry point followed by a chain of appends on the Selector it returns, as in
  \<open>builder.id('main').class('container').class('editable')\<close>.
\<close>

definition build :: "call \<Rightarrow> call list \<Rightarrow> store \<Rightarrow> (error + ref) \<times> store" where
  "build c cs st = (case builder_call c st of (r, st') \<Rightarrow> chain cs r st')"

section \<open>Basic facts\<close>

subsection \<open>The calls, uniformly\<close>

lemma Selector_call_eq:
  "Selector_call c this st =
     (case validate (call_type c) this st of
        Inl e \<Rightarrow> (Inl e, st)
      | Inr _ \<Rightarrow> (Inr this, push \<lparr>ftype = call_type c, fvalue = call_value c\<rparr> this st))"
  by (cases c)
    (simp_all add: Selector_element_def Selector_id_def Selector_class_def Selector_attr_def
      Selector_pseudoClass_def Selector_pseudoElement_def split: sum.split)

lemma builder_call_eq:
  "builder_call c st =
     (length st, st @ [\<lparr>selector = [\<lparr>ftype = call_type c, fvalue = call_value c\<rparr>]\<rparr>])"
  by (cases c)
    (simp_all add: builder_element_def builder_id_def builder_class_def builder_attr_def
      builder_pseudoClass_def builder_pseudoElement_def new_Selector_def)

lemma rank_values:
  "rank ''element'' = 0" "rank ''id'' = 1" "rank ''class'' = 2" "rank ''attr'' = 3"
  "rank ''pseudo-class'' = 4" "rank ''pseudo-element'' = 5"
  by (simp_all add: rank_def correctOrder_def)

lemma call_type_known: "call_type c \<in> set correctOrder"
  by (cases c) (simp_all add: correctOrder_def)

lemma messages_distinct: "duplicate_message \<noteq> order_message"
  by (simp add: duplicate_message_def order_message_def)

subsection \<open>The outcomes of \<open>validate\<close>\<close>

lemma find_Bex: "List.find P xs \<noteq> None \<longleftrightarrow> (\<exists>x \<in> set xs. P x)"
  by (auto simp: find_None_iff)

lemma validate_cases:
  "validate type this st =
     (if duplicate type (selector (st ! this)) then Inl DuplicateSelectorPartError
      else if selector (st ! this) = [] then Inl TypeError
      else if rank type < rank (ftype (last (selector (st ! this)))) then Inl SelectorOrderError
      else Inr ())"
  unfolding validate_def Let_def rank_def duplicate_def find_Bex by (rule refl)

lemma validate_Inr:
  "validate type this st = Inr u \<longleftrightarrow>
     \<not> duplicate type (selector (st ! this)) \<and> selector (st ! this) \<noteq> []
     \<and> rank (ftype (last (selector (st ! this)))) \<le> rank type"
  by (simp add: validate_cases not_less)

subsection \<open>The invariants are kept\<close>

lemma count_type_append:
  "count_type type (sel @ [el]) = count_type type sel + (if ftype el = type then 1 else 0)"
  by (simp add: count_type_def)

lemma count_type_zero:
  "\<forall>el \<in> set sel. ftype el \<noteq> type \<Longrightarrow> count_type type sel = 0"
  by (simp add: count_type_def)

lemma sorted_snoc_last:
  fixes xs :: "int list"
  assumes "sorted xs" and "xs \<noteq> []" and "last xs \<le> x"
  shows "sorted (xs @ [x])"
proof -
  have "\<forall>y \<in> set xs. y \<le> x"
  proof
    fix y assume "y \<in> set xs"
    with assms(1) have "y \<le> last xs" by (induction xs) auto
    with assms(3) show "y \<le> x" by simp
  qed
  with assms(1) show ?thesis by (simp add: sorted_append)
qed

lemma well_formed_append:
  assumes wf: "well_formed sel"
    and known: "type \<in> set correctOrder"
    and nodup: "\<not> duplicate type sel"
    and ord: "rank (ftype (last sel)) \<le> rank type"
  shows "well_formed (sel @ [\<lparr>ftype = type, fvalue = v\<rparr>])"
proof -
  from wf have ne: "sel \<noteq> []" and inv: "Selector_invariants sel"
    and all: "list_all (\<lambda>el. ftype el \<in> set correctOrder) sel"
    by (simp_all add: well_formed_def)
  have cnt: "count_type t (sel @ [\<lparr>ftype = type, fvalue = v\<rparr>]) \<le> 1"
    if t: "t = ''element'' \<or> t = ''id'' \<or> t = ''pseudo-element''" and old: "count_type t sel \<le> 1"
    for t
  proof (cases "type = t")
    case True
    with nodup t have "\<forall>el \<in> set sel. ftype el \<noteq> t" by (auto simp: duplicate_def)
    then have "count_type t sel = 0" by (rule count_type_zero)
    then show ?thesis by (simp add: count_type_append)
  next
    case False
    with old show ?thesis by (simp add: count_type_append)
  qed
  have "last (map (\<lambda>el. rank (ftype el)) sel) \<le> rank type"
    using ne ord by (simp add: last_map)
  with inv ne have "sorted (map (\<lambda>el. rank (ftype el)) sel @ [rank type])"
    by (intro sorted_snoc_last) (simp_all add: Selector_invariants_def)
  with inv cnt have "Selector_invariants (sel @ [\<lparr>ftype = type, fvalue = v\<rparr>])"
    by (simp add: Selector_invariants_def)
  with all known show ?thesis by (simp add: well_formed_def)
qed

lemma well_formed_seed:
  "type \<in> set correctOrder \<Longrightarrow> well_formed [\<lparr>ftype = type, fvalue = v\<rparr>]"
  by (simp add: well_formed_def Selector_invariants_def count_type_def)

lemma push_nth:
  "r < length st \<Longrightarrow>
     selector (push el this st ! r) =
       (if r = this then selector (st ! this) @ [el] else selector (st ! r))"
  by (simp add: push_def nth_list_update)

lemma push_other: "r \<noteq> this \<Longrightarrow> push el this st ! r = st ! r"
  by (simp add: push_def)

lemma push_length: "length (push el this st) = length st"
  by (simp add: push_def)

lemma well_formed_storeD:
  "well_formed_store st \<Longrightarrow> r < length st \<Longrightarrow> well_formed (selector (st ! r))"
  by (simp add: well_formed_store_def list_all_length)

lemma Selector_call_well_formed:
  assumes wf: "well_formed_store st" and lt: "this < length st"
    and call: "Selector_call c this st = (res, st')"
  shows "well_formed_store st'"
proof (cases "validate (call_type c) this st")
  case (Inl e)
  with call have "st' = st" by (simp add: Selector_call_eq)
  with wf show ?thesis by simp
next
  case (Inr u)
  with call have st': "st' = push \<lparr>ftype = call_type c, fvalue = call_value c\<rparr> this st"
    by (simp add: Selector_call_eq)
  from Inr have nodup: "\<not> duplicate (call_type c) (selector (st ! this))"
    and ord: "rank (ftype (last (selector (st ! this)))) \<le> rank (call_type c)"
    by (simp_all add: validate_Inr)
  from wf lt have "well_formed (selector (st ! this))" by (rule well_formed_storeD)
  then have new:
    "well_formed (selector (st ! this) @ [\<lparr>ftype = call_type c, fvalue = call_value c\<rparr>])"
    using call_type_known nodup ord by (rule well_formed_append)
  show ?thesis
    unfolding well_formed_store_def list_all_length
  proof (intro allI impI)
    fix r assume "r < length st'"
    then have r: "r < length st" by (simp add: st' push_length)
    show "well_formed (selector (st' ! r))"
    proof (cases "r = this")
      case True
      with new r show ?thesis by (simp add: st' push_nth)
    next
      case False
      with wf r show ?thesis by (simp add: st' push_nth well_formed_storeD)
    qed
  qed
qed

lemma builder_call_well_formed:
  assumes wf: "well_formed_store st" and call: "builder_call c st = (r, st')"
  shows "well_formed_store st'"
  using assms call_type_known [of c]
  by (auto simp: builder_call_eq well_formed_store_def well_formed_seed)

lemma reachable_well_formed: "reachable st \<Longrightarrow> well_formed_store st"
proof (induction rule: reachable.induct)
  case initial
  show ?case by (simp add: well_formed_store_def)
next
  case (entry st c r st')
  then show ?case by (blast intro: builder_call_well_formed)
next
  case (append st this c res st')
  then show ?case by (blast intro: Selector_call_well_formed)
qed

subsection \<open>Successful and failed calls, chains\<close>

lemma Selector_call_Inr:
  assumes "Selector_call c this st = (Inr r, st')"
  shows "r = this" and "st' = push \<lparr>ftype = call_type c, fvalue = call_value c\<rparr> this st"
    and "validate (call_type c) this st = Inr ()"
  using assms by (auto simp: Selector_call_eq split: sum.splits)

lemma Selector_call_Inl:
  assumes "Selector_call c this st = (Inl e, st')"
  shows "st' = st" and "validate (call_type c) this st = Inl e"
  using assms by (auto simp: Selector_call_eq split: sum.splits)

lemma reducer_call:
  "reducer acc \<lparr>ftype = call_type c, fvalue = call_value c\<rparr> = acc @ punctuated c"
  by (cases c) (simp_all add: reducer_def)

lemma Selector_call_stringify:
  assumes "Selector_call c this st = (Inr r, st')" and "this < length st"
  shows "Selector_stringify this st' = Selector_stringify this st @ punctuated c"
proof -
  from assms(1) have "st' = push \<lparr>ftype = call_type c, fvalue = call_value c\<rparr> this st"
    by (rule Selector_call_Inr(2))
  with assms(2) show ?thesis
    by (simp add: Selector_stringify_def push_nth reducer_call)
qed

lemma chain_stringify:
  "chain cs this st = (Inr r, st') \<Longrightarrow> this < length st \<Longrightarrow>
     r = this \<and> length st' = length st
     \<and> Selector_stringify this st' = Selector_stringify this st @ concat (map punctuated cs)"
proof (induction cs arbitrary: st)
  case Nil
  then show ?case by simp
next
  case (Cons c cs)
  obtain res st1 where call: "Selector_call c this st = (res, st1)" by (cases "Selector_call c this st")
  with Cons.prems(1) obtain r1 where res: "res = Inr r1" and rest: "chain cs r1 st1 = (Inr r, st')"
    by (cases res) auto
  from call res have r1: "r1 = this" and len: "length st1 = length st"
    by (auto dest: Selector_call_Inr simp: push_length)
  from call res Cons.prems(2)
  have s1: "Selector_stringify this st1 = Selector_stringify this st @ punctuated c"
    by (simp add: Selector_call_stringify)
  from Cons.IH [of st1] rest r1 len Cons.prems(2) s1 show ?case by simp
qed

lemma chain_reachable:
  "reachable st \<Longrightarrow> this < length st \<Longrightarrow> chain cs this st = (res, st') \<Longrightarrow> reachable st'"
proof (induction cs arbitrary: st)
  case Nil
  then show ?case by simp
next
  case (Cons c cs)
  obtain x st1 where call: "Selector_call c this st = (x, st1)" by (cases "Selector_call c this st")
  with Cons.prems(1,2) have r1: "reachable st1" by (blast intro: reachable.append)
  show ?case
  proof (cases x)
    case (Inl e)
    with call Cons.prems(3) r1 show ?thesis by simp
  next
    case (Inr r1)
    with call have "r1 = this" and "length st1 = length st"
      by (auto dest: Selector_call_Inr simp: push_length)
    with Cons.IH [of st1] r1 Cons.prems(2,3) call Inr show ?thesis by simp
  qed
qed

lemma build_reachable:
  assumes "reachable st" and "build c cs st = (res, st')"
  shows "reachable st'"
proof -
  let ?st1 = "st @ [\<lparr>selector = [\<lparr>ftype = call_type c, fvalue = call_value c\<rparr>]\<rparr>]"
  have a: "reachable ?st1"
    using assms(1) by (rule reachable.entry) (rule builder_call_eq)
  have b: "length st < length ?st1" by simp
  from assms(2) have "chain cs (length st) ?st1 = (res, st')"
    by (simp add: build_def builder_call_eq)
  with a b show ?thesis by (rule chain_reachable)
qed

subsection \<open>What an append changes in a rendering\<close>

lemma known_rank_zero:
  "type \<in> set correctOrder \<Longrightarrow> rank type \<le> 0 \<Longrightarrow> type = ''element''"
  by (auto simp: rank_def correctOrder_def)

lemma element_never_appends:
  assumes "well_formed (selector (st ! this))"
  shows "validate ''element'' this st \<noteq> Inr u"
proof
  assume "validate ''element'' this st = Inr u"
  then have nodup: "\<not> duplicate ''element'' (selector (st ! this))"
    and ord: "rank (ftype (last (selector (st ! this)))) \<le> rank ''element''"
    by (simp_all add: validate_Inr)
  from assms have ne: "selector (st ! this) \<noteq> []"
    and all: "list_all (\<lambda>el. ftype el \<in> set correctOrder) (selector (st ! this))"
    by (simp_all add: well_formed_def)
  from ne have mem: "last (selector (st ! this)) \<in> set (selector (st ! this))" by simp
  with all have "ftype (last (selector (st ! this))) \<in> set correctOrder"
    by (simp add: list_all_iff)
  with ord have "ftype (last (selector (st ! this))) = ''element''"
    by (simp add: known_rank_zero rank_values)
  with mem have "duplicate ''element'' (selector (st ! this))"
    unfolding duplicate_def by blast
  with nodup show False ..
qed

lemma punctuated_nonempty: "call_type c \<noteq> ''element'' \<Longrightarrow> punctuated c \<noteq> []"
  by (cases c) simp_all

lemma reducer_length: "length acc \<le> length (reducer acc el)"
  by (simp add: reducer_def)

lemma stringify_push_length:
  "this < length st \<Longrightarrow> length (stringify n st) \<le> length (stringify n (push el this st))"
proof (induction n)
  case (Sel r)
  show ?case
  proof (cases "r = this")
    case True
    with Sel show ?thesis
      by (simp add: Selector_stringify_def push_nth reducer_length)
  next
    case False
    then show ?thesis by (simp add: Selector_stringify_def push_other)
  qed
next
  case (Combined sel1 sel2 combinator)
  then show ?case by (simp add: add_mono)
qed

subsection \<open>Evaluating concrete programs\<close>

lemmas run_simps =
  build_def builder_element_def builder_id_def builder_class_def builder_attr_def
  builder_pseudoClass_def builder_pseudoElement_def new_Selector_def
  Selector_element_def Selector_id_def Selector_class_def Selector_attr_def
  Selector_pseudoClass_def Selector_pseudoElement_def validate_def push_def
  correctOrder_def Let_def Selector_stringify_def reducer_def rank_def duplicate_def

section \<open>The claims\<close>

subsection \<open>C1: reachable Selectors satisfy the invariants\<close>

text \<open>
  C1. Every Selector of a store reached through the facade (entry points and append calls,
  in any number and order) satisfies the Selector invariants: at most one part each of
  kind element, id and pseudo-element, and the ranks of its parts in non-decreasing order,
  where the ranks of element, id, class, attribute, pseudo-class and pseudo-element are
  0 to 5.
\<close>

theorem reachable_Selector_invariants:
  assumes "reachable st" and "r < length st"
  shows "Selector_invariants (selector (st ! r))
    \<and> map rank [''element'', ''id'', ''class'', ''attr'', ''pseudo-class'', ''pseudo-element'']
        = [0, 1, 2, 3, 4, 5]"
proof -
  from assms(1) have "well_formed_store st" by (rule reachable_well_formed)
  then have "well_formed (selector (st ! r))" using assms(2) by (rule well_formed_storeD)
  then show ?thesis by (simp add: well_formed_def rank_values)
qed

text \<open>The Selector built by \<open>id('main').class('container').class('editable')\<close>.\<close>

theorem reachable_Selector_invariants_witness:
  "reachable (snd (build (Id ''main'') [Class ''container'', Class ''editable''] []))
   \<and> 0 < length (snd (build (Id ''main'') [Class ''container'', Class ''editable''] []))
   \<and> Selector_invariants
        (selector (snd (build (Id ''main'') [Class ''container'', Class ''editable''] []) ! 0))"
proof -
  let ?st = "snd (build (Id ''main'') [Class ''container'', Class ''editable''] [])"
  have r: "reachable ?st"
    by (rule build_reachable [OF reachable.initial]) (rule prod.collapse [symmetric])
  have l: "0 < length ?st" by (simp add: run_simps)
  from reachable_Selector_invariants [OF r l] r l show ?thesis by blast
qed

subsection \<open>C2: \<open>stringify\<close> concatenates the punctuated parts\<close>

text \<open>
  C2. When a facade entry point followed by a chain of appends raises nothing,
  \<open>stringify()\<close> of the Selector it built is the concatenation, in call order and with
  nothing in between, of the punctuated text of each part: the bare text for element,
  \<open>#text\<close> for id, \<open>.text\<close> for class, \<open>[text]\<close> for attribute, \<open>:text\<close> for pseudo-class
  and \<open>::text\<close> for pseudo-element.
\<close>

theorem build_stringify:
  assumes "build c cs st = (Inr r, st')"
  shows "Selector_stringify r st' = concat (map punctuated (c # cs))"
proof -
  let ?st1 = "st @ [\<lparr>selector = [\<lparr>ftype = call_type c, fvalue = call_value c\<rparr>]\<rparr>]"
  from assms have "chain cs (length st) ?st1 = (Inr r, st')"
    by (simp add: build_def builder_call_eq)
  then have "r = length st \<and> length st' = length ?st1
      \<and> Selector_stringify (length st) st'
          = Selector_stringify (length st) ?st1 @ concat (map punctuated cs)"
    by (rule chain_stringify) simp
  moreover have "Selector_stringify (length st) ?st1 = punctuated c"
    by (simp add: Selector_stringify_def reducer_call)
  ultimately show ?thesis by simp
qed

text \<open>\<open>id('main').class('container').class('editable').stringify()\<close>.\<close>

theorem build_stringify_witness:
  "build (Id ''main'') [Class ''container'', Class ''editable''] []
     = (Inr 0, snd (build (Id ''main'') [Class ''container'', Class ''editable''] []))
   \<and> Selector_stringify 0 (snd (build (Id ''main'') [Class ''container'', Class ''editable''] []))
     = ''#main.container.editable''"
proof -
  have b: "build (Id ''main'') [Class ''container'', Class ''editable''] []
     = (Inr 0, snd (build (Id ''main'') [Class ''container'', Class ''editable''] []))"
    by (simp add: run_simps)
  from build_stringify [OF b] b show ?thesis by simp
qed

subsection \<open>C3: a second element, id or pseudo-element\<close>

text \<open>
  C3. On a Selector that already holds a part of kind element, id or pseudo-element,
  wherever it stands in the sequence, appending a part of that same kind raises
  DuplicateSelectorPartError (and appends nothing).
\<close>

theorem duplicate_append_raises:
  assumes "this < length st"
    and "call_type c = ''element'' \<or> call_type c = ''id'' \<or> call_type c = ''pseudo-element''"
    and "\<exists>el \<in> set (selector (st ! this)). ftype el = call_type c"
  shows "Selector_call c this st = (Inl DuplicateSelectorPartError, st)"
  using assms(2,3) by (simp add: Selector_call_eq validate_cases duplicate_def)

text \<open>\<open>id('a').id('b')\<close>.\<close>

theorem duplicate_append_raises_witness:
  "0 < length (snd (builder_call (Id ''a'') []))
   \<and> (\<exists>el \<in> set (selector (snd (builder_call (Id ''a'') []) ! 0)). ftype el = ''id'')
   \<and> Selector_call (Id ''b'') 0 (snd (builder_call (Id ''a'') []))
       = (Inl DuplicateSelectorPartError, snd (builder_call (Id ''a'') []))"
proof -
  have l: "0 < length (snd (builder_call (Id ''a'') []))" by (simp add: run_simps)
  have k: "call_type (Id ''b'') = ''element'' \<or> call_type (Id ''b'') = ''id''
      \<or> call_type (Id ''b'') = ''pseudo-element''"
    by simp
  have e: "\<exists>el \<in> set (selector (snd (builder_call (Id ''a'') []) ! 0)).
      ftype el = call_type (Id ''b'')"
    by (simp add: run_simps)
  from duplicate_append_raises [OF l k e] l e show ?thesis by simp
qed

subsection \<open>C4: when the order check raises\<close>

text \<open>
  C4, amended. An append to a non-empty Selector raises SelectorOrderError exactly when the
  rank of the appended kind is strictly less than the rank of the last stored part and the
  uniqueness check has not failed first, that is, unless the appended kind is an element,
  id or pseudo-element already stored (then the call raises DuplicateSelectorPartError).
  An append of equal or higher rank never raises SelectorOrderError.
\<close>

theorem order_error_iff:
  assumes "this < length st" and "selector (st ! this) \<noteq> []"
  shows "(fst (Selector_call c this st) = Inl SelectorOrderError
          \<longleftrightarrow> rank (call_type c) < rank (ftype (last (selector (st ! this))))
              \<and> \<not> duplicate (call_type c) (selector (st ! this)))
    \<and> (rank (ftype (last (selector (st ! this)))) \<le> rank (call_type c)
          \<longrightarrow> fst (Selector_call c this st) \<noteq> Inl SelectorOrderError)"
  using assms(2) messages_distinct
  by (auto simp: Selector_call_eq validate_cases)

text \<open>\<open>pseudoClass('hover').class('x')\<close> raises SelectorOrderError.\<close>

theorem order_error_iff_witness:
  "0 < length (snd (builder_call (PseudoClass ''hover'') []))
   \<and> selector (snd (builder_call (PseudoClass ''hover'') []) ! 0) \<noteq> []
   \<and> fst (Selector_call (Class ''x'') 0 (snd (builder_call (PseudoClass ''hover'') [])))
       = Inl SelectorOrderError"
proof -
  let ?st = "snd (builder_call (PseudoClass ''hover'') [])"
  have l: "0 < length ?st" and n: "selector (?st ! 0) \<noteq> []" by (simp_all add: run_simps)
  have "rank (call_type (Class ''x'')) < rank (ftype (last (selector (?st ! 0))))
      \<and> \<not> duplicate (call_type (Class ''x'')) (selector (?st ! 0))"
    by (simp add: run_simps)
  with order_error_iff [OF l n, of "Class ''x''"] l n show ?thesis by blast
qed

text \<open>
  The claim as written fails on \<open>element('a').id('b').element('c')\<close>: the rank of element
  is below the rank of the last part (an id), and the call raises
  DuplicateSelectorPartError, not SelectorOrderError.
\<close>

theorem order_error_shadowed_counterexample:
  "build (Element ''a'') [Id ''b''] []
     = (Inr 0, [\<lparr>selector = [\<lparr>ftype = ''element'', fvalue = ''a''\<rparr>, \<lparr>ftype = ''id'', fvalue = ''b''\<rparr>]\<rparr>])
   \<and> rank (call_type (Element ''c''))
       < rank (ftype (last (selector (snd (build (Element ''a'') [Id ''b''] []) ! 0))))
   \<and> fst (Selector_call (Element ''c'') 0 (snd (build (Element ''a'') [Id ''b''] [])))
       = Inl DuplicateSelectorPartError
   \<and> fst (Selector_call (Element ''c'') 0 (snd (build (Element ''a'') [Id ''b''] [])))
       \<noteq> Inl SelectorOrderError"
  by (simp add: run_simps duplicate_message_def order_message_def)

subsection \<open>C5: \<open>combine\<close>\<close>

text \<open>
  C5. For all selector-like values \<open>A\<close> and \<open>B\<close> (Selectors or combined selectors) and
  every glyph \<open>g\<close>, \<open>combine(A, g, B)\<close> raises nothing and returns a value whose
  \<open>stringify()\<close> is \<open>A.stringify() + " " + g + " " + B.stringify()\<close>; for the glyph \<open>+\<close>
  that is \<open>A.stringify() + " + " + B.stringify()\<close>.
\<close>

theorem combine_stringify:
  "stringify (builder_combine A g B) st = stringify A st @ '' '' @ g @ '' '' @ stringify B st
   \<and> stringify (builder_combine A ''+'' B) st = stringify A st @ '' + '' @ stringify B st"
  by (simp add: builder_combine_def)

text \<open>A nested combination over three Selectors of one store.\<close>

theorem combine_stringify_witness:
  "stringify
     (builder_combine (Sel 0) ''+'' (builder_combine (Sel 1) '' '' (Sel 2)))
     (snd (build (Element ''td'') [] (snd (build (Element ''tr'') [PseudoClass ''hover'']
        (snd (build (Element ''div'') [Id ''main''] []))))))
   = ''div#main + tr:hover   td''"
  using combine_stringify [of "Sel 0" "''+''" "builder_combine (Sel 1) '' '' (Sel 2)"
      "snd (build (Element ''td'') [] (snd (build (Element ''tr'') [PseudoClass ''hover'']
        (snd (build (Element ''div'') [Id ''main''] [])))))"]
  by (simp add: run_simps builder_combine_def)

subsection \<open>C6: a failed append changes nothing\<close>

text \<open>
  C6. When an append call raises (DuplicateSelectorPartError or SelectorOrderError), the
  store is the one before the call: the rejected part is not appended, the stored sequence
  is what it was, and \<open>stringify()\<close> returns what it returned before.
\<close>

theorem failed_append_unchanged:
  assumes "this < length st" and "Selector_call c this st = (Inl e, st')"
  shows "st' = st \<and> selector (st' ! this) = selector (st ! this)
    \<and> Selector_stringify this st' = Selector_stringify this st"
  using Selector_call_Inl(1) [OF assms(2)] by simp

text \<open>After the failed \<open>id('a').id('b')\<close>, the Selector still renders as \<open>#a\<close>.\<close>

theorem failed_append_unchanged_witness:
  "0 < length (snd (builder_call (Id ''a'') []))
   \<and> Selector_call (Id ''b'') 0 (snd (builder_call (Id ''a'') []))
       = (Inl DuplicateSelectorPartError, snd (Selector_call (Id ''b'') 0 (snd (builder_call (Id ''a'') []))))
   \<and> snd (Selector_call (Id ''b'') 0 (snd (builder_call (Id ''a'') []))) = snd (builder_call (Id ''a'') [])
   \<and> Selector_stringify 0 (snd (Selector_call (Id ''b'') 0 (snd (builder_call (Id ''a'') [])))) = ''#a''"
proof -
  let ?st = "snd (builder_call (Id ''a'') [])"
  have l: "0 < length ?st" by (simp add: run_simps)
  have c: "Selector_call (Id ''b'') 0 ?st
      = (Inl DuplicateSelectorPartError, snd (Selector_call (Id ''b'') 0 ?st))"
    by (simp add: run_simps)
  have s: "Selector_stringify 0 ?st = ''#a''" by (simp add: run_simps)
  from failed_append_unchanged [OF l c] l c s show ?thesis by simp
qed

subsection \<open>C7: the operations of the facade\<close>

text \<open>
  C7, amended. The facade has exactly the seven operations \<open>element\<close>, \<open>id\<close>, \<open>class\<close>,
  \<open>attr\<close>, \<open>pseudoClass\<close>, \<open>pseudoElement\<close> and \<open>combine\<close>. The operation for attributes
  is named \<open>attr\<close>: \<open>attr(text)\<close> returns a new Selector holding the one attribute part,
  and \<open>element('a').attr('href$=".png"').pseudoClass('focus').stringify()\<close> returns
  \<open>a[href$=".png"]:focus\<close>.
\<close>

theorem facade_operations:
  "map fst cssSelectorBuilder
     = [''element'', ''id'', ''class'', ''attr'', ''pseudoClass'', ''pseudoElement'', ''combine'']
   \<and> map_of cssSelectorBuilder ''attr'' = Some (Entry builder_attr)
   \<and> builder_attr text st = (length st, st @ [\<lparr>selector = [\<lparr>ftype = ''attr'', fvalue = text\<rparr>]\<rparr>])
   \<and> build (Element ''a'') [Attr ''href$=\".png\"'', PseudoClass ''focus''] []
       = (Inr 0, snd (build (Element ''a'') [Attr ''href$=\".png\"'', PseudoClass ''focus''] []))
   \<and> Selector_stringify 0
        (snd (build (Element ''a'') [Attr ''href$=\".png\"'', PseudoClass ''focus''] []))
       = ''a[href$=\".png\"]:focus''"
  by (simp add: cssSelectorBuilder_def run_simps)

theorem facade_operations_witness:
  "builder_attr ''href'' [] = (0, [\<lparr>selector = [\<lparr>ftype = ''attr'', fvalue = ''href''\<rparr>]\<rparr>])"
  using facade_operations [of "''href''" "[]"] by simp

text \<open>
  The claim as written fails: the facade has no property named \<open>attribute\<close>, so the names
  it exposes are not the seven of the claim.
\<close>

theorem facade_attribute_counterexample:
  "map_of cssSelectorBuilder ''attribute'' = None
   \<and> map fst cssSelectorBuilder
       \<noteq> [''element'', ''id'', ''class'', ''attribute'', ''pseudoClass'', ''pseudoElement'',
           ''combine'']"
  by (simp add: cssSelectorBuilder_def)

subsection \<open>C8: \<open>fromJSON\<close> on malformed input\<close>

text \<open>
  C8. When the parse of the input text fails, \<open>fromJSON\<close> raises that very failure: it
  does not recover, and it constructs no object, whatever the platform's
  \<open>Object.getOwnPropertyDescriptors\<close> and \<open>Object.create\<close> would have done.
\<close>

theorem fromJSON_propagates:
  assumes "JSON_parse json = Inl e"
  shows "fromJSON JSON_parse getOwnPropertyDescriptors Object_create proto json = Inl e"
  using assms by (simp add: fromJSON_def)

text \<open>A parser that rejects the text \<open>{\<close>.\<close>

theorem fromJSON_propagates_witness:
  "(\<lambda>s. if s = ''{'' then Inl SyntaxError else Inr (0::nat)) ''{'' = Inl SyntaxError
   \<and> fromJSON (\<lambda>s. if s = ''{'' then Inl SyntaxError else Inr (0::nat))
        (\<lambda>obj. Inr [obj]) (\<lambda>proto descriptors. Inr (proto, descriptors)) True ''{''
      = Inl SyntaxError"
proof -
  have p: "(\<lambda>s. if s = ''{'' then Inl SyntaxError else Inr (0::nat)) ''{'' = Inl SyntaxError"
    by simp
  from fromJSON_propagates [of "\<lambda>s. if s = ''{'' then Inl SyntaxError else Inr (0::nat)", OF p]
  show ?thesis by simp
qed

subsection \<open>C9: a combined selector sees later appends\<close>

text \<open>
  C9. A combined selector refers to its children and renders them anew at every call. If,
  after \<open>c = combine(L, g, R)\<close> with \<open>L\<close> a Selector, a part is successfully appended to
  \<open>L\<close>, then \<open>c.stringify()\<close> is the new \<open>L.stringify() + " " + g + " " + R.stringify()\<close>,
  where the new \<open>L.stringify()\<close> is the old one followed by the punctuated new part; it is
  not what \<open>c.stringify()\<close> returned before the append.
\<close>

theorem combined_is_live:
  assumes "reachable st" and "l < length st" and "Selector_call c l st = (Inr r, st')"
  shows "stringify (builder_combine (Sel l) g R) st'
           = Selector_stringify l st' @ '' '' @ g @ '' '' @ stringify R st'
    \<and> Selector_stringify l st' = Selector_stringify l st @ punctuated c
    \<and> stringify (builder_combine (Sel l) g R) st' \<noteq> stringify (builder_combine (Sel l) g R) st"
proof -
  have live: "stringify (builder_combine (Sel l) g R) st'
           = Selector_stringify l st' @ '' '' @ g @ '' '' @ stringify R st'"
    by (simp add: builder_combine_def)
  from assms(3,2) have grow: "Selector_stringify l st' = Selector_stringify l st @ punctuated c"
    by (rule Selector_call_stringify)
  from assms(3) have st': "st' = push \<lparr>ftype = call_type c, fvalue = call_value c\<rparr> l st"
    and ok: "validate (call_type c) l st = Inr ()"
    by (rule Selector_call_Inr)+
  from assms(1,2) have "well_formed (selector (st ! l))"
    by (blast intro: reachable_well_formed well_formed_storeD)
  with ok have "call_type c \<noteq> ''element''" using element_never_appends by metis
  then have "punctuated c \<noteq> []" by (rule punctuated_nonempty)
  with grow have "length (Selector_stringify l st) < length (Selector_stringify l st')" by simp
  moreover from assms(2) have "length (stringify R st) \<le> length (stringify R st')"
    unfolding st' by (rule stringify_push_length)
  ultimately have "length (stringify (builder_combine (Sel l) g R) st)
      < length (stringify (builder_combine (Sel l) g R) st')"
    by (simp add: builder_combine_def)
  then have "stringify (builder_combine (Sel l) g R) st' \<noteq> stringify (builder_combine (Sel l) g R) st"
    by auto
  with live grow show ?thesis by simp
qed

text \<open>\<open>combine(tr, '>', td)\<close> renders \<open>tr > td\<close>, and \<open>tr.odd > td\<close> after \<open>tr.class('odd')\<close>.\<close>

theorem combined_is_live_witness:
  "reachable (snd (build (Element ''td'') [] (snd (build (Element ''tr'') [] []))))
   \<and> Selector_call (Class ''odd'') 0 (snd (build (Element ''td'') [] (snd (build (Element ''tr'') [] []))))
       = (Inr 0, snd (Selector_call (Class ''odd'') 0
            (snd (build (Element ''td'') [] (snd (build (Element ''tr'') [] []))))))
   \<and> stringify (builder_combine (Sel 0) ''>'' (Sel 1))
        (snd (build (Element ''td'') [] (snd (build (Element ''tr'') [] [])))) = ''tr > td''
   \<and> stringify (builder_combine (Sel 0) ''>'' (Sel 1))
        (snd (Selector_call (Class ''odd'') 0
            (snd (build (Element ''td'') [] (snd (build (Element ''tr'') [] []))))))
       = ''tr.odd > td''"
proof -
  let ?st = "snd (build (Element ''td'') [] (snd (build (Element ''tr'') [] [])))"
  let ?st' = "snd (Selector_call (Class ''odd'') 0 ?st)"
  have "reachable (snd (build (Element ''tr'') [] []))"
    by (rule build_reachable [OF reachable.initial]) (rule prod.collapse [symmetric])
  then have r: "reachable ?st"
    by (rule build_reachable) (rule prod.collapse [symmetric])
  have l: "0 < length ?st" by (simp add: run_simps)
  have c: "Selector_call (Class ''odd'') 0 ?st = (Inr 0, ?st')" by (simp add: run_simps)
  have before: "stringify (builder_combine (Sel 0) ''>'' (Sel 1)) ?st = ''tr > td''"
    by (simp add: run_simps builder_combine_def)
  have parts: "Selector_stringify 0 ?st' = ''tr.odd''" "stringify (Sel 1) ?st' = ''td''"
    by (simp_all add: run_simps)
  from combined_is_live [OF r l c, of "''>''" "Sel 1"] parts
  have "stringify (builder_combine (Sel 0) ''>'' (Sel 1)) ?st' = ''tr.odd > td''"
    by simp
  with r c before show ?thesis by simp
qed

subsection \<open>C10: the last part always exists\<close>

text \<open>
  C10. A facade entry point seeds its Selector with exactly one part and an append never
  shortens the sequence, so no Selector of a reachable store is empty; hence reading the
  type of the last stored part in \<open>validate\<close> never fails: no call raises TypeError.
\<close>

theorem last_part_access_safe:
  assumes "reachable st" and "r < length st"
  shows "selector (st ! r) \<noteq> []
    \<and> validate type r st \<noteq> Inl TypeError
    \<and> fst (Selector_call c r st) \<noteq> Inl TypeError
    \<and> length (selector (snd (builder_call c st) ! fst (builder_call c st))) = 1
    \<and> length (selector (st ! r)) \<le> length (selector (snd (Selector_call c r st) ! r))"
proof -
  from assms have "well_formed (selector (st ! r))"
    by (blast intro: reachable_well_formed well_formed_storeD)
  then have ne: "selector (st ! r) \<noteq> []" by (simp add: well_formed_def)
  then have v: "validate t r st \<noteq> Inl TypeError" for t
    by (simp add: validate_cases)
  have c: "fst (Selector_call c r st) \<noteq> Inl TypeError"
    using v [of "call_type c"] by (auto simp: Selector_call_eq split: sum.split)
  have seed: "length (selector (snd (builder_call c st) ! fst (builder_call c st))) = 1"
    by (simp add: builder_call_eq)
  have grow: "length (selector (st ! r)) \<le> length (selector (snd (Selector_call c r st) ! r))"
    using assms(2) by (simp add: Selector_call_eq push_nth split: sum.split)
  from ne v c seed grow show ?thesis by simp
qed

text \<open>\<open>id('main').class('container')\<close>, then the rejected \<open>element('div')\<close>.\<close>

theorem last_part_access_safe_witness:
  "reachable (snd (build (Id ''main'') [Class ''container''] []))
   \<and> 0 < length (snd (build (Id ''main'') [Class ''container''] []))
   \<and> selector (snd (build (Id ''main'') [Class ''container''] []) ! 0) \<noteq> []
   \<and> fst (Selector_call (Element ''div'') 0 (snd (build (Id ''main'') [Class ''container''] [])))
       \<noteq> Inl TypeError"
proof -
  let ?st = "snd (build (Id ''main'') [Class ''container''] [])"
  have r: "reachable ?st"
    by (rule build_reachable [OF reachable.initial]) (rule prod.collapse [symmetric])
  have l: "0 < length ?st" by (simp add: run_simps)
  from last_part_access_safe [OF r l, of "''element''" "Element ''div''"] r l
  show ?thesis by simp
qed

end
